theory Spec2Isabelle
  imports Main "HOL-Library.Multiset" "HOL-Library.Product_Lexorder"
    "HOL-Library.Char_ord" "HOL-Library.List_Lexorder"
begin

section \<open>JavaScript values and built-ins used by the scoring code\<close>

text \<open>
  The tracker is a React application; its scoring engine is the set of pure functions
  \<^verbatim>\<open>computePointsFor\<close>, \<^verbatim>\<open>scoreEventEntries\<close>, \<^verbatim>\<open>buildStandings\<close>, \<^verbatim>\<open>driverCompare\<close> and
  \<^verbatim>\<open>normalizeResults\<close>, present in two versions: \<^verbatim>\<open>src/App.jsx\<close> (single season) and the
  multi-season file \<^verbatim>\<open>part_000\<close>.

  Numbers are restricted to the integers plus NaN: fractional and infinite values are
  not represented. A raw field read from JSON is a \<open>jsval\<close>.
\<close>

datatype jsnum = Num int | NaN

datatype jsval = JUndefined | JNull | JBool bool | JNumber jsnum | JString string

text \<open>
  \<^verbatim>\<open>Number(v)\<close>. The conversion of a string is the parameter \<open>str2num\<close>, so that nothing
  below depends on which strings the engine reads as numerals.
\<close>

fun js_Number :: "(string \<Rightarrow> jsnum) \<Rightarrow> jsval \<Rightarrow> jsnum" where
  "js_Number str2num JUndefined = NaN"
| "js_Number str2num JNull = Num 0"
| "js_Number str2num (JBool b) = (if b then Num 1 else Num 0)"
| "js_Number str2num (JNumber n) = n"
| "js_Number str2num (JString s) = str2num s"

text \<open>\<^verbatim>\<open>!!v\<close>: the truthiness of a value.\<close>

fun truthy :: "jsval \<Rightarrow> bool" where
  "truthy JUndefined = False"
| "truthy JNull = False"
| "truthy (JBool b) = b"
| "truthy (JNumber NaN) = False"
| "truthy (JNumber (Num n)) = (n \<noteq> 0)"
| "truthy (JString s) = (s \<noteq> [])"

text \<open>\<^verbatim>\<open>n || 1\<close> on a number: NaN and 0 are falsy.\<close>

fun num_or_1 :: "jsnum \<Rightarrow> int" where
  "num_or_1 NaN = 1"
| "num_or_1 (Num n) = (if n = 0 then 1 else n)"

text \<open>\<^verbatim>\<open>a || b\<close> on two integers, as the comparators chain their keys.\<close>

definition js_or :: "int \<Rightarrow> int \<Rightarrow> int" where
  "js_or a b = (if a \<noteq> 0 then a else b)"

text \<open>
  \<^verbatim>\<open>a.localeCompare(b)\<close> orders strings by the collation of the host's locale, which is
  not the order of the code units. A collation compares the sort keys of the two
  strings; the function \<open>collate\<close> that yields the key is a parameter of every
  definition that sorts by a string.
\<close>

definition localeCompare :: "(string \<Rightarrow> 'k::linorder) \<Rightarrow> string \<Rightarrow> string \<Rightarrow> int" where
  "localeCompare collate a b =
     (if collate a < collate b then - 1 else if collate b < collate a then 1 else 0)"

text \<open>
  \<^verbatim>\<open>xs.sort(cmp)\<close>. ECMAScript requires the sort to be stable, and every comparator of
  this program is consistent, so the result is the stable sorted permutation; insertion
  from the right computes it.
\<close>

fun insort_by :: "('a \<Rightarrow> 'a \<Rightarrow> int) \<Rightarrow> 'a \<Rightarrow> 'a list \<Rightarrow> 'a list" where
  "insort_by cmp x [] = [x]"
| "insort_by cmp x (y # ys) =
     (if cmp x y \<le> 0 then x # y # ys else y # insort_by cmp x ys)"

definition sort_by :: "('a \<Rightarrow> 'a \<Rightarrow> int) \<Rightarrow> 'a list \<Rightarrow> 'a list" where
  "sort_by cmp xs = foldr (insort_by cmp) xs []"

text \<open>
  A plain object \<^verbatim>\<open>{}\<close> used as a dictionary is modelled by its own properties. A key
  that is not an own property is looked up on \<^verbatim>\<open>Object.prototype\<close>, whose members are
  listed here; each of them is a truthy value that is not an array.
\<close>

definition object_prototype_keys :: "string list" where
  "object_prototype_keys =
     [''constructor'', ''hasOwnProperty'', ''isPrototypeOf'', ''propertyIsEnumerable'',
      ''toLocaleString'', ''toString'', ''valueOf'', ''__proto__'',
      ''__defineGetter__'', ''__defineSetter__'', ''__lookupGetter__'', ''__lookupSetter__'']"

datatype error = TypeError

section \<open>Data model\<close>

text \<open>
  The records follow the type comment at the head of \<^verbatim>\<open>App.jsx\<close>: ids, names and event
  types are strings, a stored result has a numeric position, a status string and a
  boolean fastest-lap flag.
\<close>

record Team =
  team_id :: string
  team_name :: string
  team_color :: string

text \<open>A driver without a team has \<open>teamId = ''''\<close>, which is falsy as a missing field is.\<close>

record Driver =
  driver_id :: string
  driver_name :: string
  driver_country :: string
  teamId :: string

record Event =
  event_id :: string
  event_name :: string
  event_round :: int
  event_date :: string
  event_type :: string

record ResultEntry =
  eventId :: string
  driverId :: string
  position :: int
  status :: string
  fastestLap :: bool

text \<open>A result as it arrives from a form or an imported file, before normalisation.\<close>

record RawResult =
  raw_eventId :: string
  raw_driverId :: string
  raw_position :: jsval
  raw_status :: jsval
  raw_fastestLap :: jsval

text \<open>A stored (typed) result read again as a raw one.\<close>

definition raw_of :: "ResultEntry \<Rightarrow> RawResult" where
  "raw_of r = \<lparr>raw_eventId = eventId r, raw_driverId = driverId r,
     raw_position = JNumber (Num (position r)), raw_status = JString (status r),
     raw_fastestLap = JBool (fastestLap r)\<rparr>"

record Stats =
  points :: int
  wins :: int
  podiums :: int
  bestFinish :: int
  finishes :: "int list"

record DriverRow = Stats +
  driver :: Driver

record TeamRow =
  team :: Team
  team_points :: int

record Standings =
  driverRows :: "DriverRow list"
  teamRows :: "TeamRow list"

record ScoredOutcome =
  so_driverId :: string
  pts :: int
  pos :: int
  so_status :: string
  fastestLapApplied :: bool

section \<open>Points table\<close>

definition RACE_POINTS :: "int list" where
  "RACE_POINTS = [25, 18, 15, 12, 10, 8, 6, 4, 2, 1]"

definition SPRINT_POINTS :: "int list" where
  "SPRINT_POINTS = [8, 7, 6, 5, 4, 3, 2, 1]"

definition computePointsFor :: "int \<Rightarrow> string \<Rightarrow> int" where
  "computePointsFor p ty =
     (if ty = ''Sprint''
      then (if p \<ge> 1 \<and> p \<le> int (length SPRINT_POINTS) then SPRINT_POINTS ! nat (p - 1) else 0)
      else (if p \<ge> 1 \<and> p \<le> int (length RACE_POINTS) then RACE_POINTS ! nat (p - 1) else 0))"

section \<open>Event scorer (multi-season file)\<close>

definition scoreEventEntries :: "Event \<Rightarrow> ResultEntry list \<Rightarrow> ScoredOutcome list" where
  "scoreEventEntries event entries =
     map (\<lambda>r.
        let base = (if status r = ''FIN'' then computePointsFor (position r) (event_type event) else 0);
            fl = (if event_type event = ''GP'' \<and> fastestLap r \<and> position r \<le> 10 then 1 else 0)
        in \<lparr>so_driverId = driverId r, pts = base + fl, pos = position r,
             so_status = status r, fastestLapApplied = (fl \<noteq> (0::int))\<rparr>)
       (sort_by (\<lambda>a b. position a - position b) entries)"

section \<open>Result normaliser and bulk replace\<close>

definition normalize_entry :: "(string \<Rightarrow> jsnum) \<Rightarrow> RawResult \<Rightarrow> ResultEntry" where
  "normalize_entry str2num r =
     \<lparr>eventId = raw_eventId r, driverId = raw_driverId r,
      position = max 1 (num_or_1 (js_Number str2num (raw_position r))),
      status = (if raw_status r = JString ''DNF'' then ''DNF''
                else (if raw_status r = JString ''DNS'' then ''DNS'' else ''FIN'')),
      fastestLap = truthy (raw_fastestLap r)\<rparr>"

definition resultCompare :: "(string \<Rightarrow> 'k::linorder) \<Rightarrow> ResultEntry \<Rightarrow> ResultEntry \<Rightarrow> int" where
  "resultCompare collate a b =
     js_or (localeCompare collate (eventId a) (eventId b)) (position a - position b)"

definition normalizeResults ::
  "(string \<Rightarrow> jsnum) \<Rightarrow> (string \<Rightarrow> 'k::linorder) \<Rightarrow> RawResult list \<Rightarrow> ResultEntry list" where
  "normalizeResults str2num collate list =
     sort_by (resultCompare collate) (map (normalize_entry str2num) list)"

text \<open>
  \<^verbatim>\<open>setResults(prev => normalizeResults([...prev.filter(r => r.eventId !== eventId), ...entries]))\<close>:
  the stored results are the state, passed in and returned.
\<close>

definition bulkReplaceEventResults ::
  "(string \<Rightarrow> jsnum) \<Rightarrow> (string \<Rightarrow> 'k::linorder) \<Rightarrow> string \<Rightarrow> RawResult list
     \<Rightarrow> ResultEntry list \<Rightarrow> ResultEntry list" where
  "bulkReplaceEventResults str2num collate eid entries prev =
     normalizeResults str2num collate
       (map raw_of (filter (\<lambda>r. eventId r \<noteq> eid) prev) @ entries)"

section \<open>Standings builder\<close>

text \<open>
  The two files differ in one test of \<^verbatim>\<open>buildStandings\<close>: \<^verbatim>\<open>App.jsx\<close> counts a podium when
  \<^verbatim>\<open>r.position >= 1 && r.position <= 3\<close>, the multi-season file when \<^verbatim>\<open>r.position <= 3\<close>.
\<close>

datatype source_version = App_jsx | Part_000

fun podium_test :: "source_version \<Rightarrow> int \<Rightarrow> bool" where
  "podium_test App_jsx p = (p \<ge> 1 \<and> p \<le> 3)"
| "podium_test Part_000 p = (p \<le> 3)"

record agg =
  driverStats :: "string \<rightharpoonup> Stats"
  teamPoints :: "string \<rightharpoonup> int"

definition init_stats :: Stats where
  "init_stats = \<lparr>points = 0, wins = 0, podiums = 0, bestFinish = 99, finishes = []\<rparr>"

definition init_agg :: "Driver list \<Rightarrow> Team list \<Rightarrow> agg" where
  "init_agg ds ts =
     \<lparr>driverStats = fold (\<lambda>d m. m(driver_id d \<mapsto> init_stats)) ds Map.empty,
      teamPoints = fold (\<lambda>t m. m(team_id t \<mapsto> 0)) ts Map.empty\<rparr>"

text \<open>
  \<^verbatim>\<open>(acc[r.eventId] ||= []).push(r)\<close> on the plain object \<^verbatim>\<open>acc\<close>: an own property is the
  array pushed to; a key found on \<^verbatim>\<open>Object.prototype\<close> is truthy, is not assigned, and has
  no \<^verbatim>\<open>push\<close>, so the call raises a TypeError.
\<close>

definition group_push ::
  "(string \<rightharpoonup> ResultEntry list) \<Rightarrow> ResultEntry \<Rightarrow> error + (string \<rightharpoonup> ResultEntry list)" where
  "group_push acc r =
     (case acc (eventId r) of
        Some xs \<Rightarrow> Inr (acc(eventId r \<mapsto> xs @ [r]))
      | None \<Rightarrow>
          if eventId r \<in> set object_prototype_keys then Inl TypeError
          else Inr (acc(eventId r \<mapsto> [r])))"

fun resultsByEvent ::
  "(string \<rightharpoonup> ResultEntry list) \<Rightarrow> ResultEntry list \<Rightarrow> error + (string \<rightharpoonup> ResultEntry list)" where
  "resultsByEvent acc [] = Inr acc"
| "resultsByEvent acc (r # rs) =
     (case group_push acc r of Inl err \<Rightarrow> Inl err | Inr acc' \<Rightarrow> resultsByEvent acc' rs)"

text \<open>
  \<^verbatim>\<open>(resultsByEvent[e.id] || []).slice().sort((a,b)=>a.position-b.position)\<close>: a member of
  \<^verbatim>\<open>Object.prototype\<close> is truthy and has no \<^verbatim>\<open>slice\<close>.
\<close>

definition event_entries ::
  "(string \<rightharpoonup> ResultEntry list) \<Rightarrow> string \<Rightarrow> error + ResultEntry list" where
  "event_entries rbe k =
     (case rbe k of
        Some xs \<Rightarrow> Inr (sort_by (\<lambda>a b. position a - position b) xs)
      | None \<Rightarrow>
          if k \<in> set object_prototype_keys then Inl TypeError
          else Inr (sort_by (\<lambda>a b. position a - position b) []))"

text \<open>
  The body of the inner loop. \<open>driverById\<close> is given by its own properties; the lookup of
  any other key yields nothing with a truthy \<^verbatim>\<open>teamId\<close>.
\<close>

definition score_entry ::
  "source_version \<Rightarrow> (string \<rightharpoonup> Driver) \<Rightarrow> Event \<Rightarrow> ResultEntry \<Rightarrow> agg \<Rightarrow> agg" where
  "score_entry v driverById e r st =
     (case driverStats st (driverId r) of
        None \<Rightarrow> st
      | Some d \<Rightarrow>
          let basePts = (if status r = ''FIN'' then computePointsFor (position r) (event_type e) else 0);
              flBonus = (if event_type e = ''GP'' \<and> fastestLap r \<and> position r \<le> 10 then 1 else 0);
              pts = basePts + flBonus;
              d' = d\<lparr>points := points d + pts,
                     wins := (if position r = 1 then wins d + 1 else wins d),
                     podiums := (if podium_test v (position r) then podiums d + 1 else podiums d),
                     bestFinish := min (bestFinish d) (position r),
                     finishes := finishes d @ [position r]\<rparr>;
              tp = (case driverById (driverId r) of
                      None \<Rightarrow> teamPoints st
                    | Some drv \<Rightarrow>
                        if teamId drv \<noteq> []
                        then (teamPoints st)(teamId drv \<mapsto>
                               (case teamPoints st (teamId drv) of None \<Rightarrow> 0 | Some n \<Rightarrow> n) + pts)
                        else teamPoints st)
          in \<lparr>driverStats = (driverStats st)(driverId r \<mapsto> d'), teamPoints = tp\<rparr>)"

fun score_events ::
  "source_version \<Rightarrow> (string \<rightharpoonup> Driver) \<Rightarrow> (string \<rightharpoonup> ResultEntry list) \<Rightarrow> Event list
     \<Rightarrow> agg \<Rightarrow> error + agg" where
  "score_events v driverById rbe [] st = Inr st"
| "score_events v driverById rbe (e # es) st =
     (case event_entries rbe (event_id e) of
        Inl err \<Rightarrow> Inl err
      | Inr entries \<Rightarrow>
          score_events v driverById rbe es (fold (score_entry v driverById e) entries st))"

definition driverCompare :: "(string \<Rightarrow> 'k::linorder) \<Rightarrow> DriverRow \<Rightarrow> DriverRow \<Rightarrow> int" where
  "driverCompare collate a b =
     js_or (points b - points a)
       (js_or (wins b - wins a)
          (js_or (podiums b - podiums a)
             (js_or (bestFinish a - bestFinish b)
                (localeCompare collate (driver_name (driver a)) (driver_name (driver b))))))"

definition teamCompare :: "(string \<Rightarrow> 'k::linorder) \<Rightarrow> TeamRow \<Rightarrow> TeamRow \<Rightarrow> int" where
  "teamCompare collate a b =
     js_or (team_points b - team_points a)
       (localeCompare collate (team_name (team a)) (team_name (team b)))"

text \<open>
  \<^verbatim>\<open>({ driver: d, ...driverStats.get(d.id) })\<close>. Every driver of the list was given an entry
  of \<open>driverStats\<close> and no entry is ever removed (lemma \<open>aggregate_driverStats\<close> below), so
  the lookup is defined.
\<close>

definition driver_row :: "agg \<Rightarrow> Driver \<Rightarrow> DriverRow" where
  "driver_row st d =
     (let s = the (driverStats st (driver_id d))
      in \<lparr>points = points s, wins = wins s, podiums = podiums s, bestFinish = bestFinish s,
          finishes = finishes s, driver = d\<rparr>)"

definition team_row :: "agg \<Rightarrow> Team \<Rightarrow> TeamRow" where
  "team_row st t =
     \<lparr>team = t, team_points = (case teamPoints st (team_id t) of None \<Rightarrow> 0 | Some n \<Rightarrow> n)\<rparr>"

definition buildStandings ::
  "source_version \<Rightarrow> (string \<Rightarrow> 'k::linorder) \<Rightarrow> Driver list \<Rightarrow> Team list \<Rightarrow> Event list
     \<Rightarrow> ResultEntry list \<Rightarrow> (string \<rightharpoonup> Driver) \<Rightarrow> error + Standings" where
  "buildStandings v collate ds ts es results driverById =
     (case resultsByEvent Map.empty results of
        Inl err \<Rightarrow> Inl err
      | Inr rbe \<Rightarrow>
          (case score_events v driverById rbe es (init_agg ds ts) of
             Inl err \<Rightarrow> Inl err
           | Inr st \<Rightarrow>
               Inr \<lparr>driverRows = sort_by (driverCompare collate) (map (driver_row st) ds),
                    teamRows = sort_by (teamCompare collate) (map (team_row st) ts)\<rparr>))"

text \<open>\<^verbatim>\<open>Object.fromEntries(drivers.map(d => [d.id, d]))\<close>, as the application builds it.\<close>

definition driverById_of :: "Driver list \<Rightarrow> (string \<rightharpoonup> Driver)" where
  "driverById_of ds = fold (\<lambda>d m. m(driver_id d \<mapsto> d)) ds Map.empty"

section \<open>Sort keys of the comparators\<close>

text \<open>
  Each comparator orders its rows by a tuple of keys, compared lexicographically; the
  tuples below are proved further down to induce the same order as the comparator.
\<close>

text \<open>The natural key of a result: at most one result per driver and event is intended.\<close>

definition entry_key :: "ResultEntry \<Rightarrow> string \<times> string" where
  "entry_key r = (eventId r, driverId r)"

definition raw_key :: "RawResult \<Rightarrow> string \<times> string" where
  "raw_key r = (raw_eventId r, raw_driverId r)"

definition result_key :: "(string \<Rightarrow> 'k::linorder) \<Rightarrow> ResultEntry \<Rightarrow> 'k \<times> int" where
  "result_key c r = (c (eventId r), position r)"

definition driver_key ::
  "(string \<Rightarrow> 'k::linorder) \<Rightarrow> DriverRow \<Rightarrow> int \<times> int \<times> int \<times> int \<times> 'k" where
  "driver_key c r = (- points r, - wins r, - podiums r, bestFinish r, c (driver_name (driver r)))"

definition team_key :: "(string \<Rightarrow> 'k::linorder) \<Rightarrow> TeamRow \<Rightarrow> int \<times> 'k" where
  "team_key c r = (- team_points r, c (team_name (team r)))"

section \<open>Sample values used to run the definitions\<close>

text \<open>
  A sample collation, the order of the code units, and a sample conversion that reads
  no string as a numeral.
\<close>

definition code_units :: "string \<Rightarrow> string" where
  "code_units s = s"

definition no_numerals :: "string \<Rightarrow> jsnum" where
  "no_numerals s = NaN"

definition ex_event :: "string \<Rightarrow> Event" where
  "ex_event ty = \<lparr>event_id = ''e1'', event_name = ''Monza'', event_round = 1,
     event_date = ''2024-09-01'', event_type = ty\<rparr>"

definition ex_driver :: Driver where
  "ex_driver = \<lparr>driver_id = ''d1'', driver_name = ''Ann'', driver_country = ''IT'', teamId = ''t1''\<rparr>"

definition ex_result :: "int \<Rightarrow> string \<Rightarrow> bool \<Rightarrow> ResultEntry" where
  "ex_result p s fl = \<lparr>eventId = ''e1'', driverId = ''d1'', position = p, status = s, fastestLap = fl\<rparr>"

definition ex_agg :: agg where
  "ex_agg = \<lparr>driverStats = [''d1'' \<mapsto> init_stats], teamPoints = [''t1'' \<mapsto> 0]\<rparr>"

definition ex_raw :: "string \<Rightarrow> string \<Rightarrow> jsval \<Rightarrow> jsval \<Rightarrow> jsval \<Rightarrow> RawResult" where
  "ex_raw ev drv p s fl = \<lparr>raw_eventId = ev, raw_driverId = drv, raw_position = p,
     raw_status = s, raw_fastestLap = fl\<rparr>"

definition ex_entry :: "string \<Rightarrow> string \<Rightarrow> int \<Rightarrow> string \<Rightarrow> bool \<Rightarrow> ResultEntry" where
  "ex_entry ev drv p s fl = \<lparr>eventId = ev, driverId = drv, position = p, status = s, fastestLap = fl\<rparr>"

definition ex_raws :: "RawResult list" where
  "ex_raws = [ex_raw ''e2'' ''d1'' (JString ''abc'') (JString ''XYZ'') (JNumber (Num 1)),
              ex_raw ''e1'' ''d1'' (JNumber (Num 4)) (JString ''DNS'') (JBool True),
              ex_raw ''e1'' ''d2'' (JNumber (Num (- 3))) (JString ''DNF'') JUndefined]"

definition ex_dup :: "RawResult list" where
  "ex_dup = [ex_raw ''e1'' ''d1'' (JNumber (Num 1)) (JString ''FIN'') (JBool False),
             ex_raw ''e1'' ''d1'' (JNumber (Num 2)) (JString ''DNF'') (JBool False)]"

definition ex_prev :: "ResultEntry list" where
  "ex_prev = [ex_entry ''e1'' ''d1'' 3 ''FIN'' False, ex_entry ''e0'' ''d1'' 2 ''FIN'' False]"

definition ex_grid :: "RawResult list" where
  "ex_grid = [ex_raw ''e1'' ''d2'' (JNumber (Num 2)) (JString ''FIN'') (JBool False),
              ex_raw ''e1'' ''d1'' (JNumber (Num 1)) (JString ''FIN'') (JBool True)]"

section \<open>Auxiliary definitions: the aggregation in closed form\<close>

text \<open>
  These definitions are not functions of the source; the lemmas below relate them to
  \<open>buildStandings\<close>. \<open>safe_ids\<close> holds when no event id, of an event or of a result,
  names a member of \<^verbatim>\<open>Object.prototype\<close>. \<open>scored_pairs\<close> lists the results in the order
  in which the two loops visit them, each with its event, and \<open>aggregate\<close> is the state
  the loops reach. \<open>result_points\<close> is the value of \<^verbatim>\<open>pts\<close> for a result of an event.
\<close>

definition safe_ids :: "Event list \<Rightarrow> ResultEntry list \<Rightarrow> bool" where
  "safe_ids es results =
     (list_all (\<lambda>e. event_id e \<notin> set object_prototype_keys) es
      \<and> list_all (\<lambda>r. eventId r \<notin> set object_prototype_keys) results)"

definition scored_pairs :: "Event list \<Rightarrow> ResultEntry list \<Rightarrow> (Event \<times> ResultEntry) list" where
  "scored_pairs es results =
     concat (map (\<lambda>e. map (Pair e)
        (sort_by (\<lambda>a b. position a - position b) (filter (\<lambda>r. eventId r = event_id e) results))) es)"

definition aggregate ::
  "source_version \<Rightarrow> (string \<rightharpoonup> Driver) \<Rightarrow> Driver list \<Rightarrow> Team list \<Rightarrow> Event list
     \<Rightarrow> ResultEntry list \<Rightarrow> agg" where
  "aggregate v dbi ds ts es results =
     fold (\<lambda>(e, r). score_entry v dbi e r) (scored_pairs es results) (init_agg ds ts)"

definition group_of :: "(string \<rightharpoonup> ResultEntry list) \<Rightarrow> ResultEntry list \<Rightarrow> string \<Rightarrow> ResultEntry list option" where
  "group_of acc rs k =
     (case acc k of
        None \<Rightarrow> (if filter (\<lambda>r. eventId r = k) rs = [] then None
                 else Some (filter (\<lambda>r. eventId r = k) rs))
      | Some ys \<Rightarrow> Some (ys @ filter (\<lambda>r. eventId r = k) rs))"

definition result_points :: "Event \<Rightarrow> ResultEntry \<Rightarrow> int" where
  "result_points e r =
     (if status r = ''FIN'' then computePointsFor (position r) (event_type e) else 0)
     + (if event_type e = ''GP'' \<and> fastestLap r \<and> position r \<le> 10 then 1 else 0)"

definition stats_update :: "source_version \<Rightarrow> Event \<times> ResultEntry \<Rightarrow> Stats \<Rightarrow> Stats" where
  "stats_update v = (\<lambda>(e, r) d.
     d\<lparr>points := points d + result_points e r,
       wins := (if position r = 1 then wins d + 1 else wins d),
       podiums := (if podium_test v (position r) then podiums d + 1 else podiums d),
       bestFinish := min (bestFinish d) (position r),
       finishes := finishes d @ [position r]\<rparr>)"

definition totals_update ::
  "source_version \<Rightarrow> Event \<times> ResultEntry \<Rightarrow> int \<times> int \<times> int \<times> int \<Rightarrow> int \<times> int \<times> int \<times> int" where
  "totals_update v = (\<lambda>(e, r) (p, w, pd, b).
     (p + result_points e r,
      (if position r = 1 then w + 1 else w),
      (if podium_test v (position r) then pd + 1 else pd),
      min b (position r)))"

definition totals :: "'a Stats_scheme \<Rightarrow> int \<times> int \<times> int \<times> int" where
  "totals s = (points s, wins s, podiums s, bestFinish s)"

definition team_total :: "agg \<Rightarrow> string \<Rightarrow> int" where
  "team_total st k = (case teamPoints st k of None \<Rightarrow> 0 | Some n \<Rightarrow> n)"

definition team_share :: "string set \<Rightarrow> (string \<rightharpoonup> Driver) \<Rightarrow> string \<Rightarrow> Event \<times> ResultEntry \<Rightarrow> int" where
  "team_share D dbi k = (\<lambda>(e, r).
     if driverId r \<in> D
        \<and> (case dbi (driverId r) of None \<Rightarrow> False | Some drv \<Rightarrow> teamId drv \<noteq> [] \<and> teamId drv = k)
     then result_points e r else 0)"

abbreviation score_pair :: "source_version \<Rightarrow> (string \<rightharpoonup> Driver) \<Rightarrow> Event \<times> ResultEntry \<Rightarrow> agg \<Rightarrow> agg" where
  "score_pair v dbi \<equiv> (\<lambda>(e, r). score_entry v dbi e r)"

section \<open>The ranking as the specification words it\<close>

text \<open>
  Drivers: points descending, then wins descending, then podiums descending, then best
  finish ascending, then name ascending. Teams: points descending, then name ascending.
  Names are compared in the collation order.
\<close>

definition spec_driver_order :: "(string \<Rightarrow> 'k::linorder) \<Rightarrow> DriverRow \<Rightarrow> DriverRow \<Rightarrow> bool" where
  "spec_driver_order c a b =
     (points a > points b \<or> (points a = points b \<and>
       (wins a > wins b \<or> (wins a = wins b \<and>
         (podiums a > podiums b \<or> (podiums a = podiums b \<and>
           (bestFinish a < bestFinish b \<or> (bestFinish a = bestFinish b \<and>
             c (driver_name (driver a)) \<le> c (driver_name (driver b))))))))))"

definition spec_team_order :: "(string \<Rightarrow> 'k::linorder) \<Rightarrow> TeamRow \<Rightarrow> TeamRow \<Rightarrow> bool" where
  "spec_team_order c a b =
     (team_points a > team_points b \<or> (team_points a = team_points b \<and>
        c (team_name (team a)) \<le> c (team_name (team b))))"

section \<open>An example season\<close>

definition mk_driver :: "string \<Rightarrow> string \<Rightarrow> string \<Rightarrow> Driver" where
  "mk_driver i n t = \<lparr>driver_id = i, driver_name = n, driver_country = [], teamId = t\<rparr>"

definition mk_team :: "string \<Rightarrow> string \<Rightarrow> Team" where
  "mk_team i n = \<lparr>team_id = i, team_name = n, team_color = []\<rparr>"

definition mk_event :: "string \<Rightarrow> int \<Rightarrow> string \<Rightarrow> Event" where
  "mk_event i n ty = \<lparr>event_id = i, event_name = i, event_round = n, event_date = [], event_type = ty\<rparr>"

definition mk_row :: "Driver \<Rightarrow> int \<Rightarrow> int \<Rightarrow> int \<Rightarrow> int \<Rightarrow> int list \<Rightarrow> DriverRow" where
  "mk_row d p w pd b fs = \<lparr>points = p, wins = w, podiums = pd, bestFinish = b, finishes = fs, driver = d\<rparr>"

definition ex_drivers :: "Driver list" where
  "ex_drivers = [mk_driver ''d1'' ''Ann'' ''t1'', mk_driver ''d2'' ''Bob'' [], mk_driver ''d3'' ''Cy'' ''t1'']"

definition ex_teams :: "Team list" where
  "ex_teams = [mk_team ''t2'' ''Beta'', mk_team ''t1'' ''Alpha'']"

definition ex_events :: "Event list" where
  "ex_events = [mk_event ''e1'' 1 ''GP'', mk_event ''e2'' 2 ''Sprint'']"

definition ex_results :: "ResultEntry list" where
  "ex_results = [ex_entry ''e1'' ''d2'' 2 ''FIN'' False, ex_entry ''e1'' ''d1'' 1 ''FIN'' True,
                 ex_entry ''e2'' ''d2'' 1 ''FIN'' True, ex_entry ''e1'' ''ghost'' 3 ''FIN'' False]"

definition ex_standings :: "int list \<Rightarrow> Standings" where
  "ex_standings fs =
     \<lparr>driverRows = [mk_row (mk_driver ''d2'' ''Bob'' []) 26 1 2 1 fs,
                    mk_row (mk_driver ''d1'' ''Ann'' ''t1'') 26 1 1 1 [1],
                    mk_row (mk_driver ''d3'' ''Cy'' ''t1'') 0 0 0 99 []],
      teamRows = [\<lparr>team = mk_team ''t1'' ''Alpha'', team_points = 26\<rparr>,
                  \<lparr>team = mk_team ''t2'' ''Beta'', team_points = 0\<rparr>]\<rparr>"

definition ex_proto_event :: Event where
  "ex_proto_event = mk_event ''constructor'' 3 ''GP''"

definition ex_ghost :: ResultEntry where
  "ex_ghost = ex_entry ''constructor'' ''ghost'' 1 ''FIN'' False"

section \<open>The points table\<close>

lemma int_cases_1_10:
  fixes p :: int
  assumes "1 \<le> p" "p \<le> 10"
  shows "p = 1 \<or> p = 2 \<or> p = 3 \<or> p = 4 \<or> p = 5 \<or> p = 6 \<or> p = 7 \<or> p = 8 \<or> p = 9 \<or> p = 10"
  using assms by presburger

text \<open>
  C1. The points lookup is total and agrees with the fixed tables: a Grand Prix gives
  25, 18, 15, 12, 10, 8, 6, 4, 2, 1 for the positions 1 to 10 and a Sprint
  8, 7, 6, 5, 4, 3, 2, 1 for the positions 1 to 8; every other integer position,
  below 1 or beyond the table, gives 0.
\<close>

theorem computePointsFor_table:
  "computePointsFor p ''GP'' =
     (if p = 1 then 25 else if p = 2 then 18 else if p = 3 then 15 else if p = 4 then 12
      else if p = 5 then 10 else if p = 6 then 8 else if p = 7 then 6 else if p = 8 then 4
      else if p = 9 then 2 else if p = 10 then 1 else 0)
   \<and> computePointsFor p ''Sprint'' =
     (if p = 1 then 8 else if p = 2 then 7 else if p = 3 then 6 else if p = 4 then 5
      else if p = 5 then 4 else if p = 6 then 3 else if p = 7 then 2 else if p = 8 then 1
      else 0)"
proof (cases "1 \<le> p \<and> p \<le> 10")
  case True
  then have "p = 1 \<or> p = 2 \<or> p = 3 \<or> p = 4 \<or> p = 5 \<or> p = 6 \<or> p = 7 \<or> p = 8 \<or> p = 9 \<or> p = 10"
    by (simp add: int_cases_1_10)
  then show ?thesis
    by (elim disjE) (simp_all add: computePointsFor_def RACE_POINTS_def SPRINT_POINTS_def)
next
  case False
  then show ?thesis
    by (auto simp: computePointsFor_def RACE_POINTS_def SPRINT_POINTS_def)
qed

section \<open>Scoring one result\<close>

lemmas ex_defs = ex_event_def ex_driver_def ex_result_def ex_agg_def init_stats_def

lemma score_entry_known:
  assumes "driverStats st (driverId r) = Some d"
  shows "driverStats (score_entry v dbi e r st) (driverId r) =
     Some (d\<lparr>points := points d
                 + ((if status r = ''FIN'' then computePointsFor (position r) (event_type e) else 0)
                    + (if event_type e = ''GP'' \<and> fastestLap r \<and> position r \<le> 10 then 1 else 0)),
              wins := (if position r = 1 then wins d + 1 else wins d),
              podiums := (if podium_test v (position r) then podiums d + 1 else podiums d),
              bestFinish := min (bestFinish d) (position r),
              finishes := finishes d @ [position r]\<rparr>)"
  using assms by (simp add: score_entry_def Let_def)


text \<open>
  C2. Scoring a result of a known driver adds the base points plus a fastest-lap bonus
  that is 1 exactly when the event is a Grand Prix, the fastest lap is claimed and the
  position is at most 10, and 0 otherwise; the status of the result plays no part in the
  bonus. The event scorer of the multi-season file applies the same bonus and reports it
  in \<open>fastestLapApplied\<close>. In particular a Sprint result never gains the bonus.
\<close>

theorem fastest_lap_bonus_iff:
  assumes "driverStats st (driverId r) = Some d"
  shows "map_option points (driverStats (score_entry v dbi e r st) (driverId r)) =
           Some (points d
             + (if status r = ''FIN'' then computePointsFor (position r) (event_type e) else 0)
             + (if event_type e = ''GP'' \<and> fastestLap r \<and> position r \<le> 10 then 1 else 0))
     \<and> map fastestLapApplied (scoreEventEntries e rs) =
           map (\<lambda>x. event_type e = ''GP'' \<and> fastestLap x \<and> position x \<le> 10)
             (sort_by (\<lambda>a b. position a - position b) rs)
     \<and> map pts (scoreEventEntries e rs) =
           map (\<lambda>x. (if status x = ''FIN'' then computePointsFor (position x) (event_type e) else 0)
                    + (if event_type e = ''GP'' \<and> fastestLap x \<and> position x \<le> 10 then 1 else 0))
             (sort_by (\<lambda>a b. position a - position b) rs)"
proof (intro conjI)
  show "map_option points (driverStats (score_entry v dbi e r st) (driverId r)) =
           Some (points d
             + (if status r = ''FIN'' then computePointsFor (position r) (event_type e) else 0)
             + (if event_type e = ''GP'' \<and> fastestLap r \<and> position r \<le> 10 then 1 else 0))"
    by (simp add: score_entry_known [OF assms])
  show "map fastestLapApplied (scoreEventEntries e rs) =
           map (\<lambda>x. event_type e = ''GP'' \<and> fastestLap x \<and> position x \<le> 10)
             (sort_by (\<lambda>a b. position a - position b) rs)"
    by (simp add: scoreEventEntries_def Let_def)
  show "map pts (scoreEventEntries e rs) =
           map (\<lambda>x. (if status x = ''FIN'' then computePointsFor (position x) (event_type e) else 0)
                    + (if event_type e = ''GP'' \<and> fastestLap x \<and> position x \<le> 10 then 1 else 0))
             (sort_by (\<lambda>a b. position a - position b) rs)"
    by (simp add: scoreEventEntries_def Let_def)
qed

text \<open>
  A Sprint winner with the fastest-lap flag set: 8 points, no bonus, in the aggregation
  and in the event scorer.
\<close>

theorem fastest_lap_bonus_iff_witness:
  "driverStats ex_agg (driverId (ex_result 1 ''FIN'' True)) = Some init_stats
   \<and> map_option points (driverStats
        (score_entry Part_000 [''d1'' \<mapsto> ex_driver] (ex_event ''Sprint'') (ex_result 1 ''FIN'' True) ex_agg)
        ''d1'') = Some 8
   \<and> map fastestLapApplied (scoreEventEntries (ex_event ''Sprint'') [ex_result 1 ''FIN'' True]) = [False]
   \<and> map pts (scoreEventEntries (ex_event ''Sprint'') [ex_result 1 ''FIN'' True]) = [8]"
  using fastest_lap_bonus_iff [of ex_agg "ex_result 1 ''FIN'' True" init_stats Part_000
      "[''d1'' \<mapsto> ex_driver]" "ex_event ''Sprint''" "[ex_result 1 ''FIN'' True]"]
  by (simp add: ex_defs computePointsFor_def SPRINT_POINTS_def sort_by_def)



section \<open>Sorting with a comparator\<close>

lemma insort_by_key:
  assumes "\<And>x y. (cmp x y \<le> 0) = (key x \<le> key y)"
  shows "insort_by cmp x ys = insort_key key x ys"
  by (induction ys) (simp_all add: assms)

lemma sort_by_key:
  assumes "\<And>x y. (cmp x y \<le> 0) = (key x \<le> key y)"
  shows "sort_by cmp xs = sort_key key xs"
proof -
  have "insort_by cmp = insort_key key"
    by (intro ext) (rule insort_by_key [OF assms])
  then show ?thesis by (simp add: sort_by_def sort_key_def)
qed

lemma mset_insort_by: "mset (insort_by cmp x ys) = add_mset x (mset ys)"
  by (induction ys) simp_all

lemma mset_sort_by: "mset (sort_by cmp xs) = mset xs"
  by (induction xs) (simp_all add: sort_by_def mset_insort_by)

lemma set_sort_by: "set (sort_by cmp xs) = set xs"
  using mset_sort_by [of cmp xs] by (metis set_mset_mset)

text \<open>
  For a comparator that orders by a key, \<open>sort_by\<close> returns the sorted permutation that
  keeps rows with equal keys in their input order.
\<close>

lemma sort_by_sorted_stable:
  assumes "\<And>x y. (cmp x y \<le> 0) = (key x \<le> key y)"
  shows "sorted (map key (sort_by cmp xs))"
    and "filter (\<lambda>y. key y = k) (sort_by cmp xs) = filter (\<lambda>y. key y = k) xs"
  by (simp_all add: sort_by_key [OF assms] sort_key_stable)

section \<open>The normaliser\<close>

lemma resultCompare_key:
  "(resultCompare c a b \<le> 0) = (result_key c a \<le> result_key c b)"
  by (auto simp: resultCompare_def result_key_def js_or_def localeCompare_def less_eq_prod_def)

lemma normalizeResults_sort_key:
  "normalizeResults s c xs = sort_key (result_key c) (map (normalize_entry s) xs)"
  unfolding normalizeResults_def by (rule sort_by_key) (rule resultCompare_key)

lemma normalize_entry_position:
  "position (normalize_entry s r) =
     (case js_Number s (raw_position r) of NaN \<Rightarrow> 1 | Num n \<Rightarrow> if n < 1 then 1 else n)"
  by (cases "js_Number s (raw_position r)") (auto simp: normalize_entry_def)

lemma normalize_entry_raw_of:
  assumes "1 \<le> position e" "status e = ''FIN'' \<or> status e = ''DNF'' \<or> status e = ''DNS''"
  shows "normalize_entry s (raw_of e) = e"
  using assms by (auto simp: normalize_entry_def raw_of_def)

lemma normalize_entry_normal:
  "1 \<le> position (normalize_entry s r)"
  "status (normalize_entry s r) = ''FIN'' \<or> status (normalize_entry s r) = ''DNF''
     \<or> status (normalize_entry s r) = ''DNS''"
  by (simp_all add: normalize_entry_def)

lemma normalizeResults_normal:
  assumes "e \<in> set (normalizeResults s c xs)"
  shows "1 \<le> position e" "status e = ''FIN'' \<or> status e = ''DNF'' \<or> status e = ''DNS''"
proof -
  from assms obtain r where "e = normalize_entry s r"
    by (auto simp: normalizeResults_def set_sort_by)
  then show "1 \<le> position e" "status e = ''FIN'' \<or> status e = ''DNF'' \<or> status e = ''DNS''"
    using normalize_entry_normal [of s r] by simp_all
qed

text \<open>
  C7. The normaliser is idempotent: normalising the stored results again (read back as
  raw records) returns the same sequence, entry by entry and in the same order.
\<close>

theorem normalizeResults_idempotent:
  "normalizeResults s c (map raw_of (normalizeResults s c xs)) = normalizeResults s c xs"
proof -
  let ?ys = "normalizeResults s c xs"
  have "map (normalize_entry s \<circ> raw_of) ?ys = map (\<lambda>e. e) ?ys"
    by (rule map_cong [OF refl]) (simp add: normalize_entry_raw_of normalizeResults_normal)
  then have m: "map (normalize_entry s \<circ> raw_of) ?ys = ?ys" by simp
  have "sorted (map (result_key c) ?ys)"
    by (simp add: normalizeResults_sort_key)
  then have "sort_key (result_key c) ?ys = ?ys"
    by (rule sort_key_id_if_sorted)
  then show ?thesis
    by (simp add: normalizeResults_sort_key [of s c "map raw_of ?ys"] m)
qed

text \<open>
  C6. The normaliser returns the entry-wise normalised results, reordered. For each entry
  the ids are kept; the position is the number read from the raw position, replaced by 1
  when that is NaN, zero or negative, hence always at least 1; the status is kept when it
  is one of \<open>FIN\<close>, \<open>DNF\<close>, \<open>DNS\<close> and is \<open>FIN\<close> otherwise; the fastest-lap flag is
  the truthiness of the raw flag. The output is ordered by event id ascending (in the
  collation order), then by position ascending.
\<close>

theorem normalizeResults_spec:
  "mset (normalizeResults s c xs) = mset (map (normalize_entry s) xs)
   \<and> (\<forall>r. eventId (normalize_entry s r) = raw_eventId r
          \<and> driverId (normalize_entry s r) = raw_driverId r
          \<and> 1 \<le> position (normalize_entry s r)
          \<and> position (normalize_entry s r) =
               (case js_Number s (raw_position r) of NaN \<Rightarrow> 1 | Num n \<Rightarrow> if n < 1 then 1 else n)
          \<and> status (normalize_entry s r) =
               (if raw_status r = JString ''FIN'' then ''FIN''
                else if raw_status r = JString ''DNF'' then ''DNF''
                else if raw_status r = JString ''DNS'' then ''DNS'' else ''FIN'')
          \<and> fastestLap (normalize_entry s r) = truthy (raw_fastestLap r))
   \<and> (\<forall>e \<in> set (normalizeResults s c xs). 1 \<le> position e)
   \<and> sorted_wrt (\<lambda>a b. c (eventId a) < c (eventId b)
                      \<or> (c (eventId a) = c (eventId b) \<and> position a \<le> position b))
        (normalizeResults s c xs)"
proof (intro conjI allI ballI)
  fix r
  show "1 \<le> position (normalize_entry s r)"
    by (rule normalize_entry_normal)
  show "position (normalize_entry s r) =
               (case js_Number s (raw_position r) of NaN \<Rightarrow> 1 | Num n \<Rightarrow> if n < 1 then 1 else n)"
    by (rule normalize_entry_position)
next
  fix e
  assume "e \<in> set (normalizeResults s c xs)"
  then show "1 \<le> position e"
    by (rule normalizeResults_normal)
next
  show "mset (normalizeResults s c xs) = mset (map (normalize_entry s) xs)"
    by (simp add: normalizeResults_def mset_sort_by)
  have "sorted (map (result_key c) (normalizeResults s c xs))"
    by (simp add: normalizeResults_sort_key)
  then have "sorted_wrt (\<lambda>a b. result_key c a \<le> result_key c b) (normalizeResults s c xs)"
    by (simp add: sorted_map)
  then show "sorted_wrt (\<lambda>a b. c (eventId a) < c (eventId b)
                      \<or> (c (eventId a) = c (eventId b) \<and> position a \<le> position b))
        (normalizeResults s c xs)"
    by (rule sorted_wrt_mono_rel [rotated]) (auto simp: result_key_def less_eq_prod_def)
qed (simp_all add: normalize_entry_def)

lemmas sort_eval = sort_by_def resultCompare_def localeCompare_def js_or_def code_units_def
  no_numerals_def entry_key_def

text \<open>
  Three raw results: a non-numeric position and an unknown status, a negative position,
  and a missing fastest-lap flag.
\<close>

theorem normalizeResults_spec_witness:
  "normalizeResults no_numerals code_units ex_raws =
     [ex_entry ''e1'' ''d2'' 1 ''DNF'' False,
      ex_entry ''e1'' ''d1'' 4 ''DNS'' True,
      ex_entry ''e2'' ''d1'' 1 ''FIN'' True]
   \<and> mset (normalizeResults no_numerals code_units ex_raws) =
       mset (map (normalize_entry no_numerals) ex_raws)
   \<and> 1 \<le> position (normalize_entry no_numerals (ex_raw ''e1'' ''d2'' (JNumber (Num (- 3))) (JString ''DNF'') JUndefined))
   \<and> sorted_wrt (\<lambda>a b. eventId a < eventId b \<or> (eventId a = eventId b \<and> position a \<le> position b))
       (normalizeResults no_numerals code_units ex_raws)"
  using normalizeResults_spec [of no_numerals code_units ex_raws]
  by (simp add: ex_raws_def ex_raw_def ex_entry_def normalizeResults_def normalize_entry_def sort_eval)

section \<open>Bulk replace of one event's results\<close>

text \<open>
  C8, as claimed: after a bulk replace whose input names the same (event, driver) pair
  twice, the stored results would hold one entry for the pair, the later one. They hold
  both.
\<close>

theorem bulkReplace_duplicates_counterexample:
  "bulkReplaceEventResults no_numerals code_units ''e1'' ex_dup [] =
     [ex_entry ''e1'' ''d1'' 1 ''FIN'' False, ex_entry ''e1'' ''d1'' 2 ''DNF'' False]
   \<and> \<not> distinct (map entry_key
          (bulkReplaceEventResults no_numerals code_units ''e1'' ex_dup []))"
  by (simp add: bulkReplaceEventResults_def ex_dup_def ex_raw_def ex_entry_def
        normalizeResults_def normalize_entry_def sort_eval)

lemma normalize_entry_key:
  "eventId (normalize_entry s r) = raw_eventId r" "driverId (normalize_entry s r) = raw_driverId r"
  by (simp_all add: normalize_entry_def)

text \<open>
  C8, amended. A bulk replace does not deduplicate: it stores every supplied entry,
  normalised, next to the prior results of the other events, so whenever two supplied
  entries share an (event, driver) pair the stored results hold that pair more than once.
  When the supplied entries all carry the replaced event's id and name pairwise different
  drivers, and the prior results held at most one entry per (event, driver) pair, so do
  the stored results.
\<close>

theorem bulkReplace_keeps_entries:
  "mset (bulkReplaceEventResults s c eid entries prev) =
     mset (map (normalize_entry s \<circ> raw_of) (filter (\<lambda>r. eventId r \<noteq> eid) prev))
     + mset (map (normalize_entry s) entries)
   \<and> (\<not> distinct (map raw_key entries)
        \<longrightarrow> \<not> distinct (map entry_key (bulkReplaceEventResults s c eid entries prev)))
   \<and> (distinct (map entry_key prev) \<and> distinct (map raw_driverId entries)
          \<and> (\<forall>x \<in> set entries. raw_eventId x = eid)
        \<longrightarrow> distinct (map entry_key (bulkReplaceEventResults s c eid entries prev)))"
proof (intro conjI impI)
  let ?kept = "filter (\<lambda>r. eventId r \<noteq> eid) prev"
  let ?out = "bulkReplaceEventResults s c eid entries prev"
  show m: "mset ?out =
     mset (map (normalize_entry s \<circ> raw_of) ?kept) + mset (map (normalize_entry s) entries)"
    by (simp add: bulkReplaceEventResults_def normalizeResults_def mset_sort_by)
  have k1: "map entry_key (map (normalize_entry s \<circ> raw_of) ?kept) = map entry_key ?kept"
    by (simp add: normalize_entry_key raw_of_def entry_key_def)
  have k2: "map entry_key (map (normalize_entry s) entries) = map raw_key entries"
    by (simp add: normalize_entry_key entry_key_def raw_key_def)
  have eq: "map entry_key (map (normalize_entry s \<circ> raw_of) ?kept @ map (normalize_entry s) entries) =
      map entry_key ?kept @ map raw_key entries"
    unfolding map_append k1 k2 ..
  have "mset (map entry_key ?out) =
      mset (map entry_key (map (normalize_entry s \<circ> raw_of) ?kept @ map (normalize_entry s) entries))"
    by (simp only: m mset_map mset_append image_mset_union)
  then have "mset (map entry_key ?out) = mset (map entry_key ?kept @ map raw_key entries)"
    by (simp only: eq)
  then have iff: "distinct (map entry_key ?out) = distinct (map entry_key ?kept @ map raw_key entries)"
    by (rule mset_eq_imp_distinct_iff)
  {
    assume "\<not> distinct (map raw_key entries)"
    then have "\<not> distinct (map entry_key ?kept @ map raw_key entries)"
      by simp
    with iff show "\<not> distinct (map entry_key ?out)"
      by blast
  }
  {
    assume h: "distinct (map entry_key prev) \<and> distinct (map raw_driverId entries)
          \<and> (\<forall>x \<in> set entries. raw_eventId x = eid)"
    then have r: "map raw_key entries = map (\<lambda>x. (eid, raw_driverId x)) entries"
      by (simp add: raw_key_def)
    have d1: "distinct (map entry_key ?kept)"
      using h by (simp add: distinct_map_filter)
    have d2: "distinct (map (\<lambda>x. (eid, raw_driverId x)) entries)"
      using h by (simp add: distinct_map inj_on_def)
    have d3: "set (map entry_key ?kept) \<inter> set (map (\<lambda>x. (eid, raw_driverId x)) entries) = {}"
      by (auto simp: entry_key_def)
    have "distinct (map entry_key ?kept @ map (\<lambda>x. (eid, raw_driverId x)) entries)"
      using d1 d2 d3 by simp
    then have "distinct (map entry_key ?kept @ map raw_key entries)"
      by (simp only: r)
    with iff show "distinct (map entry_key ?out)"
      by blast
  }
qed

text \<open>
  Two supplied entries for the pair (e1, d1) are both stored, again under that pair; a
  grid that names each driver once keeps one entry per pair.
\<close>

theorem bulkReplace_keeps_entries_witness:
  "mset (bulkReplaceEventResults no_numerals code_units ''e1'' ex_dup ex_prev) =
     mset (map (normalize_entry no_numerals \<circ> raw_of) (filter (\<lambda>r. eventId r \<noteq> ''e1'') ex_prev))
     + mset (map (normalize_entry no_numerals) ex_dup)
   \<and> \<not> distinct (map raw_key ex_dup)
   \<and> \<not> distinct (map entry_key (bulkReplaceEventResults no_numerals code_units ''e1'' ex_dup ex_prev))
   \<and> distinct (map entry_key ex_prev)
   \<and> distinct (map raw_driverId ex_grid)
   \<and> list_all (\<lambda>x. raw_eventId x = ''e1'') ex_grid
   \<and> bulkReplaceEventResults no_numerals code_units ''e1'' ex_grid ex_prev =
      [ex_entry ''e0'' ''d1'' 2 ''FIN'' False, ex_entry ''e1'' ''d1'' 1 ''FIN'' True,
       ex_entry ''e1'' ''d2'' 2 ''FIN'' False]
   \<and> distinct (map entry_key
        (bulkReplaceEventResults no_numerals code_units ''e1'' ex_grid ex_prev))"
proof -
  note A = bulkReplace_keeps_entries [of no_numerals code_units "''e1''" ex_dup ex_prev]
  note B = bulkReplace_keeps_entries [of no_numerals code_units "''e1''" ex_grid ex_prev]
  have m: "mset (bulkReplaceEventResults no_numerals code_units ''e1'' ex_dup ex_prev) =
     mset (map (normalize_entry no_numerals \<circ> raw_of) (filter (\<lambda>r. eventId r \<noteq> ''e1'') ex_prev))
     + mset (map (normalize_entry no_numerals) ex_dup)"
    using A by (rule conjunct1)
  have g: "\<not> distinct (map raw_key ex_dup)"
    by (simp add: ex_dup_def ex_raw_def raw_key_def)
  have dup: "\<not> distinct (map entry_key (bulkReplaceEventResults no_numerals code_units ''e1'' ex_dup ex_prev))"
    using A g by blast
  have h1: "distinct (map entry_key ex_prev)"
    by (simp add: ex_prev_def ex_entry_def entry_key_def)
  have h2: "distinct (map raw_driverId ex_grid)"
    by (simp add: ex_grid_def ex_raw_def)
  have h3: "\<forall>x \<in> set ex_grid. raw_eventId x = ''e1''"
    by (simp add: ex_grid_def ex_raw_def)
  have r: "bulkReplaceEventResults no_numerals code_units ''e1'' ex_grid ex_prev =
      [ex_entry ''e0'' ''d1'' 2 ''FIN'' False, ex_entry ''e1'' ''d1'' 1 ''FIN'' True,
       ex_entry ''e1'' ''d2'' 2 ''FIN'' False]"
    by (simp add: bulkReplaceEventResults_def ex_grid_def ex_prev_def ex_raw_def ex_entry_def raw_of_def
        normalizeResults_def normalize_entry_def sort_eval)
  have ok: "distinct (map entry_key
        (bulkReplaceEventResults no_numerals code_units ''e1'' ex_grid ex_prev))"
    using B h1 h2 h3 by blast
  have h3': "list_all (\<lambda>x. raw_eventId x = ''e1'') ex_grid"
    using h3 by (simp only: list_all_iff)
  from m g dup h1 h2 h3' r ok show ?thesis
    by (intro conjI)
qed

section \<open>When the standings builder returns\<close>

lemma resultsByEvent_Inr:
  assumes "\<forall>r \<in> set rs. eventId r \<notin> set object_prototype_keys"
  shows "resultsByEvent acc rs = Inr (group_of acc rs)"
  using assms
proof (induction rs arbitrary: acc)
  case Nil
  have "group_of acc [] = acc"
    by (rule ext) (simp add: group_of_def split: option.splits)
  then show ?case by simp
next
  case (Cons r rs)
  show ?case
  proof (cases "acc (eventId r)")
    case None
    have "group_of (acc(eventId r \<mapsto> [r])) rs = group_of acc (r # rs)"
      using None by (rule_tac ext) (auto simp: group_of_def split: option.splits)
    then show ?thesis using None Cons by (simp add: group_push_def)
  next
    case (Some xs)
    have "group_of (acc(eventId r \<mapsto> xs @ [r])) rs = group_of acc (r # rs)"
      using Some by (rule_tac ext) (auto simp: group_of_def split: option.splits)
    then show ?thesis using Some Cons by (simp add: group_push_def)
  qed
qed

lemma resultsByEvent_Inl:
  assumes "\<exists>r \<in> set rs. eventId r \<in> set object_prototype_keys"
    and "\<forall>k \<in> set object_prototype_keys. acc k = None"
  shows "resultsByEvent acc rs = Inl TypeError"
  using assms
proof (induction rs arbitrary: acc)
  case Nil
  then show ?case by simp
next
  case (Cons r rs)
  show ?case
  proof (cases "eventId r \<in> set object_prototype_keys")
    case True
    then show ?thesis using Cons.prems(2) by (simp add: group_push_def)
  next
    case False
    then have ex: "\<exists>r \<in> set rs. eventId r \<in> set object_prototype_keys"
      using Cons.prems(1) by auto
    show ?thesis
    proof (cases "acc (eventId r)")
      case None
      have "\<forall>k \<in> set object_prototype_keys. (acc(eventId r \<mapsto> [r])) k = None"
        using Cons.prems(2) False by auto
      from Cons.IH [of "acc(eventId r \<mapsto> [r])", OF ex this]
      have ih: "resultsByEvent (acc(eventId r \<mapsto> [r])) rs = Inl TypeError" .
      show ?thesis using None False by (simp add: group_push_def ih)
    next
      case (Some xs)
      have "\<forall>k \<in> set object_prototype_keys. (acc(eventId r \<mapsto> xs @ [r])) k = None"
        using Cons.prems(2) False by auto
      from Cons.IH [of "acc(eventId r \<mapsto> xs @ [r])", OF ex this]
      have ih: "resultsByEvent (acc(eventId r \<mapsto> xs @ [r])) rs = Inl TypeError" .
      show ?thesis using Some by (simp add: group_push_def ih)
    qed
  qed
qed

lemma group_of_empty:
  "group_of Map.empty rs k =
     (if filter (\<lambda>r. eventId r = k) rs = [] then None else Some (filter (\<lambda>r. eventId r = k) rs))"
  by (simp add: group_of_def)

lemma event_entries_group:
  assumes "k \<notin> set object_prototype_keys \<or> filter (\<lambda>r. eventId r = k) rs \<noteq> []"
  shows "event_entries (group_of Map.empty rs) k =
     Inr (sort_by (\<lambda>a b. position a - position b) (filter (\<lambda>r. eventId r = k) rs))"
  using assms by (auto simp: event_entries_def group_of_empty)

lemma event_entries_proto:
  assumes "k \<in> set object_prototype_keys" "\<forall>r \<in> set rs. eventId r \<notin> set object_prototype_keys"
  shows "event_entries (group_of Map.empty rs) k = Inl TypeError"
proof -
  have "filter (\<lambda>r. eventId r = k) rs = []"
    using assms by (auto simp: filter_empty_conv)
  then show ?thesis using assms(1) by (simp add: event_entries_def group_of_empty)
qed

lemma score_events_Inr:
  assumes "\<forall>e \<in> set es. event_id e \<notin> set object_prototype_keys"
  shows "score_events v dbi (group_of Map.empty rs) es st =
     Inr (fold (\<lambda>(e, r). score_entry v dbi e r) (scored_pairs es rs) st)"
  using assms
proof (induction es arbitrary: st)
  case Nil
  then show ?case by (simp add: scored_pairs_def)
next
  case (Cons e es)
  then have "event_id e \<notin> set object_prototype_keys" by simp
  then have ee: "event_entries (group_of Map.empty rs) (event_id e) =
     Inr (sort_by (\<lambda>a b. position a - position b) (filter (\<lambda>r. eventId r = event_id e) rs))"
    by (simp add: event_entries_group)
  have f: "\<And>xs s. fold (\<lambda>(e, r). score_entry v dbi e r) (map (Pair e) xs) s = fold (score_entry v dbi e) xs s"
    by (simp add: fold_map comp_def)
  show ?case using Cons by (simp add: ee scored_pairs_def f)
qed

lemma score_events_Inl:
  assumes "\<exists>e \<in> set es. event_id e \<in> set object_prototype_keys"
    and "\<forall>r \<in> set rs. eventId r \<notin> set object_prototype_keys"
  shows "score_events v dbi (group_of Map.empty rs) es st = Inl TypeError"
  using assms(1)
proof (induction es arbitrary: st)
  case Nil
  then show ?case by simp
next
  case (Cons e es)
  show ?case
  proof (cases "event_id e \<in> set object_prototype_keys")
    case True
    then show ?thesis by (simp add: event_entries_proto [OF _ assms(2)])
  next
    case False
    then have "\<exists>e \<in> set es. event_id e \<in> set object_prototype_keys"
      using Cons.prems by auto
    from Cons.IH [OF this] show ?thesis using False by (simp add: event_entries_group)
  qed
qed

lemma buildStandings_eq:
  "buildStandings v c ds ts es results dbi =
     (if safe_ids es results
      then Inr \<lparr>driverRows = sort_by (driverCompare c) (map (driver_row (aggregate v dbi ds ts es results)) ds),
                teamRows = sort_by (teamCompare c) (map (team_row (aggregate v dbi ds ts es results)) ts)\<rparr>
      else Inl TypeError)"
proof (cases "\<forall>r \<in> set results. eventId r \<notin> set object_prototype_keys")
  case rs: True
  show ?thesis
  proof (cases "\<forall>e \<in> set es. event_id e \<notin> set object_prototype_keys")
    case True
    then have "safe_ids es results" using rs by (simp add: safe_ids_def list_all_iff)
    then show ?thesis
      by (simp add: buildStandings_def resultsByEvent_Inr [OF rs] score_events_Inr [OF True] aggregate_def)
  next
    case False
    then have "\<not> safe_ids es results" by (simp add: safe_ids_def list_all_iff)
    moreover from False have "\<exists>e \<in> set es. event_id e \<in> set object_prototype_keys" by simp
    ultimately show ?thesis
      by (simp add: buildStandings_def resultsByEvent_Inr [OF rs] score_events_Inl [OF _ rs])
  qed
next
  case False
  then have "\<not> safe_ids es results" by (auto simp: safe_ids_def list_all_iff)
  moreover from False have "\<exists>r \<in> set results. eventId r \<in> set object_prototype_keys" by simp
  then have "resultsByEvent Map.empty results = Inl TypeError"
    by (rule resultsByEvent_Inl) simp
  ultimately show ?thesis by (simp add: buildStandings_def)
qed


section \<open>The aggregation in closed form\<close>

lemma score_entry_driverStats:
  "driverStats (score_entry v dbi e r st) i =
     (if driverId r = i then map_option (stats_update v (e, r)) (driverStats st i)
      else driverStats st i)"
  by (cases "driverStats st (driverId r)")
     (auto simp: score_entry_def Let_def stats_update_def result_points_def)

lemma fold_score_driverStats:
  "driverStats (fold (score_pair v dbi) ps st) i =
     map_option (fold (stats_update v) (filter (\<lambda>(e, r). driverId r = i) ps)) (driverStats st i)"
proof (induction ps arbitrary: st)
  case Nil
  then show ?case by (simp add: option.map_ident)
next
  case (Cons p ps)
  obtain e r where p: "p = (e, r)" by (cases p)
  show ?case
    by (simp add: p Cons score_entry_driverStats option.map_comp comp_def)
qed

lemma score_entry_dom: "dom (driverStats (score_entry v dbi e r st)) = dom (driverStats st)"
  by (auto simp: score_entry_driverStats dom_def split: if_splits)

lemma fold_score_dom: "dom (driverStats (fold (score_pair v dbi) ps st)) = dom (driverStats st)"
  by (auto simp: fold_score_driverStats dom_def)

lemma score_entry_team_total:
  "team_total (score_entry v dbi e r st) k =
     team_total st k + team_share (dom (driverStats st)) dbi k (e, r)"
proof (cases "driverStats st (driverId r)")
  case None
  then have "driverId r \<notin> dom (driverStats st)" by (simp add: dom_def)
  then show ?thesis using None by (simp add: score_entry_def team_share_def)
next
  case (Some d)
  then have "driverId r \<in> dom (driverStats st)" by (simp add: dom_def)
  then show ?thesis
    using Some
    by (auto simp: score_entry_def Let_def team_share_def team_total_def result_points_def
          split: option.splits)
qed

lemma fold_score_team_total:
  "team_total (fold (score_pair v dbi) ps st) k =
     team_total st k + sum_list (map (team_share (dom (driverStats st)) dbi k) ps)"
proof (induction ps arbitrary: st)
  case Nil
  then show ?case by simp
next
  case (Cons p ps)
  obtain e r where p: "p = (e, r)" by (cases p)
  show ?case
    by (simp add: p Cons score_entry_team_total score_entry_dom)
qed

lemma totals_stats_update: "totals (stats_update v p s) = totals_update v p (totals s)"
  by (cases p) (simp add: totals_def stats_update_def totals_update_def)

lemma totals_fold: "totals (fold (stats_update v) ps s) = fold (totals_update v) ps (totals s)"
  by (induction ps arbitrary: s) (simp_all add: totals_stats_update)

lemma totals_update_commute:
  "totals_update v p \<circ> totals_update v q = totals_update v q \<circ> totals_update v p"
  by (cases p; cases q) (auto simp: totals_update_def fun_eq_iff min.commute min.left_commute)

lemma totals_fold_mset:
  assumes "mset ps = mset qs"
  shows "fold (totals_update v) ps = fold (totals_update v) qs"
  by (rule fold_multiset_equiv [OF _ assms]) (rule totals_update_commute)

lemma sum_list_mset_cong:
  fixes f :: "'a \<Rightarrow> int"
  assumes "mset ps = mset qs"
  shows "sum_list (map f ps) = sum_list (map f qs)"
proof -
  have "sum_mset (mset (map f ps)) = sum_mset (mset (map f qs))"
    using assms by (metis mset_map)
  then show ?thesis by (simp only: sum_mset_sum_list)
qed

lemma mset_scored_pairs:
  assumes "mset es' = mset es"
  shows "mset (scored_pairs es' rs) = mset (scored_pairs es rs)"
proof -
  let ?f = "\<lambda>e. map (Pair e)
        (sort_by (\<lambda>a b. position a - position b) (filter (\<lambda>r. eventId r = event_id e) rs))"
  have "mset (map (\<lambda>e. mset (?f e)) es') = mset (map (\<lambda>e. mset (?f e)) es)"
    using assms by (metis mset_map)
  then have "sum_mset (mset (map (\<lambda>e. mset (?f e)) es')) = sum_mset (mset (map (\<lambda>e. mset (?f e)) es))"
    by simp
  then show ?thesis
    by (simp only: scored_pairs_def mset_concat sum_mset_sum_list map_map comp_def)
qed

lemma fold_upd_const:
  "fold (\<lambda>x m. m(f x \<mapsto> c)) xs m0 i = (if i \<in> f ` set xs then Some c else m0 i)"
  by (induction xs arbitrary: m0) auto

lemma init_agg_driverStats:
  "driverStats (init_agg ds ts) i = (if i \<in> driver_id ` set ds then Some init_stats else None)"
  by (simp add: init_agg_def fold_upd_const)

lemma init_agg_teamPoints:
  "teamPoints (init_agg ds ts) k = (if k \<in> team_id ` set ts then Some 0 else None)"
  by (simp add: init_agg_def fold_upd_const)

lemma aggregate_driverStats:
  "driverStats (aggregate v dbi ds ts es rs) i =
     (if i \<in> driver_id ` set ds
      then Some (fold (stats_update v) (filter (\<lambda>(e, r). driverId r = i) (scored_pairs es rs)) init_stats)
      else None)"
  by (simp add: aggregate_def fold_score_driverStats init_agg_driverStats)

lemma aggregate_team_total:
  "team_total (aggregate v dbi ds ts es rs) k =
     sum_list (map (team_share (driver_id ` set ds) dbi k) (scored_pairs es rs))"
proof -
  have "dom (driverStats (init_agg ds ts)) = driver_id ` set ds"
    by (auto simp: dom_def init_agg_driverStats)
  moreover have "team_total (init_agg ds ts) k = 0"
    by (simp add: team_total_def init_agg_teamPoints)
  ultimately show ?thesis
    by (simp add: aggregate_def fold_score_team_total)
qed


lemma sum_list_all_zero:
  fixes xs :: "int list"
  assumes "\<forall>x \<in> set xs. x = 0"
  shows "sum_list xs = 0"
  using assms by (induction xs) simp_all

lemma set_scored_pairs:
  "set (scored_pairs es rs) = {(e, r). e \<in> set es \<and> r \<in> set rs \<and> eventId r = event_id e}"
  by (auto simp: scored_pairs_def set_sort_by)

lemma driver_row_simps:
  "driver (driver_row st d) = d"
  "totals (driver_row st d) = totals (the (driverStats st (driver_id d)))"
  "finishes (driver_row st d) = finishes (the (driverStats st (driver_id d)))"
  by (simp_all add: driver_row_def Let_def totals_def)

lemma team_row_simps:
  "team (team_row st t) = t"
  "team_points (team_row st t) = team_total st (team_id t)"
  by (simp_all add: team_row_def team_total_def)

section \<open>The leaderboards\<close>

lemma driverCompare_key:
  "(driverCompare c a b \<le> 0) = (driver_key c a \<le> driver_key c b)"
  by (auto simp: driverCompare_def driver_key_def js_or_def localeCompare_def less_eq_prod_def)

lemma teamCompare_key:
  "(teamCompare c a b \<le> 0) = (team_key c a \<le> team_key c b)"
  by (auto simp: teamCompare_def team_key_def js_or_def localeCompare_def less_eq_prod_def)

lemma driver_key_order: "(driver_key c a \<le> driver_key c b) = spec_driver_order c a b"
  by (auto simp: driver_key_def spec_driver_order_def less_eq_prod_def)

lemma team_key_order: "(team_key c a \<le> team_key c b) = spec_team_order c a b"
  by (auto simp: team_key_def spec_team_order_def less_eq_prod_def)

lemma sorted_key_unique:
  fixes k :: "'a \<Rightarrow> 'b::linorder"
  assumes "sorted (map k xs)" "sorted (map k ys)" "mset (map k ys) = mset (map k xs)"
  shows "map k ys = map k xs"
proof -
  have "sort (map k xs) = map k ys"
    using assms(3,2) by (rule properties_for_sort)
  moreover have "sort (map k xs) = map k xs"
    using assms(1) by (rule sorted_sort_id)
  ultimately show ?thesis by simp
qed

lemma buildStandings_InrD:
  assumes "buildStandings v c ds ts es results dbi = Inr out"
  shows "safe_ids es results"
    and "driverRows out = sort_key (driver_key c) (map (driver_row (aggregate v dbi ds ts es results)) ds)"
    and "teamRows out = sort_key (team_key c) (map (team_row (aggregate v dbi ds ts es results)) ts)"
proof -
  show s: "safe_ids es results"
    using assms by (auto simp: buildStandings_eq split: if_splits)
  have "out = \<lparr>driverRows = sort_by (driverCompare c) (map (driver_row (aggregate v dbi ds ts es results)) ds),
                teamRows = sort_by (teamCompare c) (map (team_row (aggregate v dbi ds ts es results)) ts)\<rparr>"
    using assms s by (simp add: buildStandings_eq)
  then show "driverRows out = sort_key (driver_key c) (map (driver_row (aggregate v dbi ds ts es results)) ds)"
    and "teamRows out = sort_key (team_key c) (map (team_row (aggregate v dbi ds ts es results)) ts)"
    by (simp_all add: sort_by_key [OF driverCompare_key] sort_by_key [OF teamCompare_key])
qed

lemmas ex_season_defs = mk_driver_def mk_team_def mk_event_def mk_row_def ex_drivers_def ex_teams_def
  ex_events_def ex_results_def ex_standings_def ex_entry_def

lemmas build_eval = buildStandings_def group_push_def event_entries_def score_entry_def Let_def
  init_agg_def init_stats_def driver_row_def team_row_def driverById_of_def sort_by_def
  driverCompare_def teamCompare_def localeCompare_def js_or_def computePointsFor_def
  RACE_POINTS_def SPRINT_POINTS_def object_prototype_keys_def code_units_def

lemma ex_run:
  "buildStandings Part_000 code_units ex_drivers ex_teams ex_events ex_results (driverById_of ex_drivers)
     = Inr (ex_standings [2, 1])"
  by (simp add: ex_season_defs build_eval)

lemma ex_run_swapped:
  "buildStandings Part_000 code_units ex_drivers ex_teams (rev ex_events) ex_results (driverById_of ex_drivers)
     = Inr (ex_standings [1, 2])"
  by (simp add: ex_season_defs build_eval)

text \<open>
  C4. Whenever the standings builder returns, its driver leaderboard is sorted by points
  descending, then wins descending, then podiums descending, then best finish ascending,
  then name ascending, and its team leaderboard by points descending, then name
  ascending. The order is a function of those keys: any arrangement of rows with the same
  keys that is sorted in this way shows the same sequence of keys.
\<close>

theorem leaderboards_sorted:
  assumes "buildStandings v c ds ts es results dbi = Inr out"
  shows "sorted_wrt (spec_driver_order c) (driverRows out)
     \<and> sorted_wrt (spec_team_order c) (teamRows out)
     \<and> (\<forall>rows. sorted_wrt (spec_driver_order c) rows
            \<and> mset (map (driver_key c) rows) = mset (map (driver_key c) (driverRows out))
          \<longrightarrow> map (driver_key c) rows = map (driver_key c) (driverRows out))
     \<and> (\<forall>rows. sorted_wrt (spec_team_order c) rows
            \<and> mset (map (team_key c) rows) = mset (map (team_key c) (teamRows out))
          \<longrightarrow> map (team_key c) rows = map (team_key c) (teamRows out))"
proof -
  note D = buildStandings_InrD [OF assms]
  have sd: "sorted (map (driver_key c) (driverRows out))"
    by (simp add: D(2))
  have st: "sorted (map (team_key c) (teamRows out))"
    by (simp add: D(3))
  have wd: "\<And>rows. sorted (map (driver_key c) rows) = sorted_wrt (spec_driver_order c) rows"
    by (simp add: sorted_map driver_key_order)
  have wt: "\<And>rows. sorted (map (team_key c) rows) = sorted_wrt (spec_team_order c) rows"
    by (simp add: sorted_map team_key_order)
  show ?thesis
  proof (intro conjI allI impI)
    show "sorted_wrt (spec_driver_order c) (driverRows out)"
      using sd by (simp only: wd)
    show "sorted_wrt (spec_team_order c) (teamRows out)"
      using st by (simp only: wt)
  next
    fix rows
    assume "sorted_wrt (spec_driver_order c) rows
            \<and> mset (map (driver_key c) rows) = mset (map (driver_key c) (driverRows out))"
    then have "sorted (map (driver_key c) rows)"
      and "mset (map (driver_key c) rows) = mset (map (driver_key c) (driverRows out))"
      by (simp_all only: wd)
    with sd show "map (driver_key c) rows = map (driver_key c) (driverRows out)"
      by (intro sorted_key_unique)
  next
    fix rows
    assume "sorted_wrt (spec_team_order c) rows
            \<and> mset (map (team_key c) rows) = mset (map (team_key c) (teamRows out))"
    then have "sorted (map (team_key c) rows)"
      and "mset (map (team_key c) rows) = mset (map (team_key c) (teamRows out))"
      by (simp_all only: wt)
    with st show "map (team_key c) rows = map (team_key c) (teamRows out)"
      by (intro sorted_key_unique)
  qed
qed

text \<open>
  The example season: Bob and Ann tie on points and wins, Bob has more podiums. A
  second table with the same keys (it differs in the finish history) has the same order.
\<close>

theorem leaderboards_sorted_witness:
  "buildStandings Part_000 code_units ex_drivers ex_teams ex_events ex_results (driverById_of ex_drivers)
       = Inr (ex_standings [2, 1])
   \<and> sorted_wrt (spec_driver_order code_units) (driverRows (ex_standings [2, 1]))
   \<and> sorted_wrt (spec_team_order code_units) (teamRows (ex_standings [2, 1]))
   \<and> sorted_wrt (spec_driver_order code_units) (driverRows (ex_standings [1, 2]))
   \<and> mset (map (driver_key code_units) (driverRows (ex_standings [1, 2]))) =
       mset (map (driver_key code_units) (driverRows (ex_standings [2, 1])))
   \<and> map (driver_key code_units) (driverRows (ex_standings [1, 2])) =
       map (driver_key code_units) (driverRows (ex_standings [2, 1]))"
proof -
  note A = leaderboards_sorted [OF ex_run]
  have alt: "sorted_wrt (spec_driver_order code_units) (driverRows (ex_standings [1, 2]))"
    by (simp add: ex_season_defs spec_driver_order_def)
  have keys: "mset (map (driver_key code_units) (driverRows (ex_standings [1, 2]))) =
       mset (map (driver_key code_units) (driverRows (ex_standings [2, 1])))"
    by (simp add: ex_season_defs driver_key_def)
  from A alt keys
  have "map (driver_key code_units) (driverRows (ex_standings [1, 2])) =
       map (driver_key code_units) (driverRows (ex_standings [2, 1]))"
    by blast
  with A alt keys ex_run show ?thesis by blast
qed

text \<open>
  C10. Whenever the standings builder returns, the drivers of its driver rows are the
  input drivers, each as often as the input lists it, and likewise the teams of its team
  rows. A driver named by no result of a listed event has the initial statistics: 0
  points, 0 wins, 0 podiums, best finish 99 and no finishes. A team for which every
  result of a listed event by one of its known drivers is worth 0 points (in particular
  a team without such results) has 0 points.
\<close>

theorem one_row_per_driver_and_team:
  assumes "buildStandings v c ds ts es results dbi = Inr out"
  shows "mset (map driver (driverRows out)) = mset ds
     \<and> mset (map team (teamRows out)) = mset ts
     \<and> (\<forall>row \<in> set (driverRows out).
          (\<forall>r \<in> set results. driverId r = driver_id (driver row) \<longrightarrow> eventId r \<notin> event_id ` set es)
          \<longrightarrow> points row = 0 \<and> wins row = 0 \<and> podiums row = 0 \<and> bestFinish row = 99
              \<and> finishes row = [])
     \<and> (\<forall>row \<in> set (teamRows out).
          (\<forall>e \<in> set es. \<forall>r \<in> set results. \<forall>drv.
              eventId r = event_id e \<and> driverId r \<in> driver_id ` set ds
              \<and> dbi (driverId r) = Some drv \<and> teamId drv = team_id (team row)
              \<longrightarrow> result_points e r = 0)
          \<longrightarrow> team_points row = 0)"
proof -
  note D = buildStandings_InrD [OF assms]
  let ?st = "aggregate v dbi ds ts es results"
  have m1: "mset (map driver (driverRows out)) = mset ds"
    by (simp add: D(2) multiset.map_comp comp_def driver_row_simps)
  have m2: "mset (map team (teamRows out)) = mset ts"
    by (simp add: D(3) multiset.map_comp comp_def team_row_simps)
  have drv: "points row = 0 \<and> wins row = 0 \<and> podiums row = 0 \<and> bestFinish row = 99 \<and> finishes row = []"
    if row: "row \<in> set (driverRows out)"
      and none: "\<forall>r \<in> set results. driverId r = driver_id (driver row) \<longrightarrow> eventId r \<notin> event_id ` set es"
    for row
  proof -
    from row obtain d where d: "d \<in> set ds" "row = driver_row ?st d"
      by (auto simp: D(2))
    have "filter (\<lambda>(e, r). driverId r = driver_id d) (scored_pairs es results) = []"
      using none d by (auto simp: filter_empty_conv set_scored_pairs driver_row_simps)
    then have "driverStats ?st (driver_id d) = Some init_stats"
      using d(1) by (simp add: aggregate_driverStats)
    then show ?thesis
      by (simp add: d(2) driver_row_def init_stats_def)
  qed
  have tm: "team_points row = 0"
    if row: "row \<in> set (teamRows out)"
      and none: "\<forall>e \<in> set es. \<forall>r \<in> set results. \<forall>drv.
              eventId r = event_id e \<and> driverId r \<in> driver_id ` set ds
              \<and> dbi (driverId r) = Some drv \<and> teamId drv = team_id (team row)
              \<longrightarrow> result_points e r = 0"
    for row
  proof -
    from row obtain t where t: "t \<in> set ts" "row = team_row ?st t"
      by (auto simp: D(3))
    have "\<forall>x \<in> set (map (team_share (driver_id ` set ds) dbi (team_id t)) (scored_pairs es results)). x = 0"
      using none t(2)
      by (auto simp: set_scored_pairs team_share_def team_row_simps split: option.splits)
    then have "sum_list (map (team_share (driver_id ` set ds) dbi (team_id t)) (scored_pairs es results)) = 0"
      by (rule sum_list_all_zero)
    then show ?thesis
      by (simp add: t(2) team_row_simps aggregate_team_total)
  qed
  from m1 m2 drv tm show ?thesis by blast
qed


text \<open>
  In the example season Cy has no result and keeps the initial statistics; team Beta has
  no driver and 0 points.
\<close>

theorem one_row_per_driver_and_team_witness:
  "buildStandings Part_000 code_units ex_drivers ex_teams ex_events ex_results (driverById_of ex_drivers)
       = Inr (ex_standings [2, 1])
   \<and> mset (map driver (driverRows (ex_standings [2, 1]))) = mset ex_drivers
   \<and> mset (map team (teamRows (ex_standings [2, 1]))) = mset ex_teams
   \<and> mk_row (mk_driver ''d3'' ''Cy'' ''t1'') 0 0 0 99 [] \<in> set (driverRows (ex_standings [2, 1]))
   \<and> list_all (\<lambda>r. driverId r \<noteq> ''d3'') ex_results
   \<and> \<lparr>team = mk_team ''t2'' ''Beta'', team_points = 0\<rparr> \<in> set (teamRows (ex_standings [2, 1]))
   \<and> list_all (\<lambda>d. teamId d \<noteq> ''t2'') ex_drivers"
proof -
  note A = one_row_per_driver_and_team [OF ex_run]
  have "mk_row (mk_driver ''d3'' ''Cy'' ''t1'') 0 0 0 99 [] \<in> set (driverRows (ex_standings [2, 1]))"
    and "list_all (\<lambda>r. driverId r \<noteq> ''d3'') ex_results"
    and "\<lparr>team = mk_team ''t2'' ''Beta'', team_points = 0\<rparr> \<in> set (teamRows (ex_standings [2, 1]))"
    and "list_all (\<lambda>d. teamId d \<noteq> ''t2'') ex_drivers"
    by (simp_all add: ex_season_defs)
  with A ex_run show ?thesis by blast
qed

section \<open>The order of the events\<close>

lemma insort_key_rel:
  assumes "list_all2 R xs ys" "R x y" "\<And>a b. R a b \<Longrightarrow> k a = k b"
  shows "list_all2 R (insort_key k x xs) (insort_key k y ys)"
  using assms(1)
proof (induction rule: list_all2_induct)
  case Nil
  then show ?case using assms(2) by simp
next
  case (Cons a as b bs)
  then show ?case using assms(2) assms(3) [OF assms(2)] assms(3) [of a b] by simp
qed

lemma sort_key_rel:
  assumes "list_all2 R xs ys" "\<And>a b. R a b \<Longrightarrow> k a = k b"
  shows "list_all2 R (sort_key k xs) (sort_key k ys)"
  using assms(1)
proof (induction rule: list_all2_induct)
  case Nil
  then show ?case by simp
next
  case (Cons a as b bs)
  then show ?case by (simp add: insort_key_rel assms(2))
qed

lemma list_all2_map_eq:
  assumes "list_all2 R xs ys" "\<And>a b. R a b \<Longrightarrow> g a = g b"
  shows "map g xs = map g ys"
  using assms(1) by (induction rule: list_all2_induct) (simp_all add: assms(2))

lemma safe_ids_mset:
  assumes "mset es' = mset es"
  shows "safe_ids es' rs = safe_ids es rs"
proof -
  have "set es' = set es" using assms by (rule mset_eq_setD)
  then show ?thesis by (simp add: safe_ids_def list_all_iff)
qed

lemma aggregate_totals_mset:
  assumes "mset es' = mset es" "d \<in> set ds"
  shows "totals (driver_row (aggregate v dbi ds ts es' rs) d) =
         totals (driver_row (aggregate v dbi ds ts es rs) d)"
proof -
  let ?P = "\<lambda>(e, r). driverId r = driver_id d"
  have "mset (filter ?P (scored_pairs es' rs)) = mset (filter ?P (scored_pairs es rs))"
    using mset_scored_pairs [OF assms(1), of rs] by (simp only: mset_filter)
  then have "fold (totals_update v) (filter ?P (scored_pairs es' rs)) =
             fold (totals_update v) (filter ?P (scored_pairs es rs))"
    by (rule totals_fold_mset)
  then show ?thesis
    using assms(2) by (simp add: driver_row_simps aggregate_driverStats totals_fold)
qed

lemma aggregate_team_row_mset:
  assumes "mset es' = mset es"
  shows "team_row (aggregate v dbi ds ts es' rs) t = team_row (aggregate v dbi ds ts es rs) t"
proof -
  have "team_total (aggregate v dbi ds ts es' rs) (team_id t) =
        team_total (aggregate v dbi ds ts es rs) (team_id t)"
    unfolding aggregate_team_total
    by (rule sum_list_mset_cong) (rule mset_scored_pairs [OF assms])
  then show ?thesis
    by (simp add: team_row_def team_total_def)
qed

text \<open>
  C5. Permuting the list of events, with the drivers, teams and results fixed, changes
  neither the team rows nor the points of any driver row: the builder returns again, the
  team leaderboard is the same, and the driver leaderboard lists the same drivers in the
  same order with the same points.
\<close>

theorem totals_independent_of_event_order:
  assumes "mset es' = mset es"
    and "buildStandings v c ds ts es results dbi = Inr out"
  shows "\<exists>out'. buildStandings v c ds ts es' results dbi = Inr out'
           \<and> teamRows out' = teamRows out
           \<and> map (\<lambda>row. (driver row, points row)) (driverRows out') =
             map (\<lambda>row. (driver row, points row)) (driverRows out)"
proof -
  note D = buildStandings_InrD [OF assms(2)]
  let ?st = "aggregate v dbi ds ts es results"
  let ?st' = "aggregate v dbi ds ts es' results"
  let ?out' = "\<lparr>driverRows = sort_by (driverCompare c) (map (driver_row ?st') ds),
                 teamRows = sort_by (teamCompare c) (map (team_row ?st') ts)\<rparr>"
  let ?R = "\<lambda>a b :: DriverRow. driver a = driver b \<and> totals a = totals b"
  have "safe_ids es' results"
    using D(1) by (simp add: safe_ids_mset [OF assms(1)])
  then have run: "buildStandings v c ds ts es' results dbi = Inr ?out'"
    by (simp add: buildStandings_eq)
  note D' = buildStandings_InrD [OF run]
  have tm: "map (team_row ?st') ts = map (team_row ?st) ts"
    by (simp add: aggregate_team_row_mset [OF assms(1)])
  have "teamRows ?out' = sort_key (team_key c) (map (team_row ?st') ts)"
    by (rule D'(3))
  also have "\<dots> = sort_key (team_key c) (map (team_row ?st) ts)"
    by (simp only: tm)
  also have "\<dots> = teamRows out"
    by (simp only: D(3))
  finally have teams: "teamRows ?out' = teamRows out" .
  have "list_all2 ?R (map (driver_row ?st') ds) (map (driver_row ?st) ds)"
    by (simp add: list_all2_map1 list_all2_map2 list_all2_same driver_row_simps(1)
          aggregate_totals_mset [OF assms(1)])
  then have "list_all2 ?R (sort_key (driver_key c) (map (driver_row ?st') ds))
                          (sort_key (driver_key c) (map (driver_row ?st) ds))"
    by (rule sort_key_rel) (auto simp: driver_key_def totals_def)
  moreover have "driverRows ?out' = sort_key (driver_key c) (map (driver_row ?st') ds)"
    by (rule D'(2))
  ultimately have "list_all2 ?R (driverRows ?out') (driverRows out)"
    by (simp only: D(2))
  then have "map (\<lambda>row. (driver row, points row)) (driverRows ?out') =
             map (\<lambda>row. (driver row, points row)) (driverRows out)"
    by (rule list_all2_map_eq) (auto simp: totals_def)
  with run teams show ?thesis by blast
qed

text \<open>
  The example season with its two events swapped: only Bob's finish history changes.
\<close>

theorem totals_independent_of_event_order_witness:
  "mset (rev ex_events) = mset ex_events
   \<and> buildStandings Part_000 code_units ex_drivers ex_teams ex_events ex_results (driverById_of ex_drivers)
       = Inr (ex_standings [2, 1])
   \<and> buildStandings Part_000 code_units ex_drivers ex_teams (rev ex_events) ex_results (driverById_of ex_drivers)
       = Inr (ex_standings [1, 2])
   \<and> teamRows (ex_standings [1, 2]) = teamRows (ex_standings [2, 1])
   \<and> map (\<lambda>row. (driver row, points row)) (driverRows (ex_standings [1, 2])) =
     map (\<lambda>row. (driver row, points row)) (driverRows (ex_standings [2, 1]))"
proof -
  have h: "mset (rev ex_events) = mset ex_events" by simp
  from totals_independent_of_event_order [OF h ex_run]
  have "teamRows (ex_standings [1, 2]) = teamRows (ex_standings [2, 1])
   \<and> map (\<lambda>row. (driver row, points row)) (driverRows (ex_standings [1, 2])) =
     map (\<lambda>row. (driver row, points row)) (driverRows (ex_standings [2, 1]))"
    by (simp add: ex_run_swapped)
  with h ex_run ex_run_swapped show ?thesis by blast
qed


section \<open>Results of unknown drivers\<close>

text \<open>
  C9. A result of an unknown driver for the event whose id is \<open>constructor\<close>: grouping
  the results finds \<^verbatim>\<open>Object.prototype.constructor\<close> under that key, calls its missing
  \<^verbatim>\<open>push\<close>, and the builder raises a TypeError, in both files.
\<close>

theorem unknown_driver_prototype_key_raises:
  "driverId ex_ghost \<notin> driver_id ` set ex_drivers
   \<and> buildStandings Part_000 code_units ex_drivers ex_teams [ex_proto_event] [ex_ghost]
        (driverById_of ex_drivers) = Inl TypeError
   \<and> buildStandings App_jsx code_units ex_drivers ex_teams [ex_proto_event] [ex_ghost]
        (driverById_of ex_drivers) = Inl TypeError"
  by (simp add: ex_proto_event_def ex_ghost_def ex_season_defs buildStandings_def group_push_def
        object_prototype_keys_def)

lemma score_entry_unknown:
  assumes "driverId r \<notin> dom (driverStats st)"
  shows "score_entry v dbi e r st = st"
  using assms by (auto simp: score_entry_def dom_def)

lemma fold_score_filter_known:
  assumes "dom (driverStats st) = D"
  shows "fold (score_pair v dbi) (filter (\<lambda>(e, r). driverId r \<in> D) ps) st =
         fold (score_pair v dbi) ps st"
  using assms
proof (induction ps arbitrary: st)
  case Nil
  then show ?case by simp
next
  case (Cons p ps)
  obtain e r where p: "p = (e, r)" by (cases p)
  have d: "dom (driverStats (score_entry v dbi e r st)) = D"
    using Cons.prems by (simp add: score_entry_dom)
  show ?case
  proof (cases "driverId r \<in> D")
    case True
    then show ?thesis using Cons.IH [OF d] by (simp add: p)
  next
    case False
    then have "score_entry v dbi e r st = st"
      using Cons.prems by (simp add: score_entry_unknown)
    then show ?thesis using False Cons.IH [OF Cons.prems] by (simp add: p)
  qed
qed

lemma position_cmp_key:
  "(position a - position b \<le> 0) = (position a \<le> position (b::ResultEntry))"
  by simp

lemma scored_pairs_filter:
  "scored_pairs es (filter P rs) = filter (\<lambda>(e, r). P r) (scored_pairs es rs)"
proof -
  have step: "map (Pair e) (sort_by (\<lambda>a b. position a - position b)
            (filter (\<lambda>r. eventId r = event_id e) (filter P rs))) =
        filter (\<lambda>(e, r). P r) (map (Pair e) (sort_by (\<lambda>a b. position a - position b)
            (filter (\<lambda>r. eventId r = event_id e) rs)))" for e
  proof -
    have "filter (\<lambda>r. eventId r = event_id e) (filter P rs) =
          filter P (filter (\<lambda>r. eventId r = event_id e) rs)"
      by (auto simp: filter_filter intro: filter_cong)
    then show ?thesis
      by (simp add: sort_by_key [OF position_cmp_key] filter_sort filter_map comp_def)
  qed
  have "scored_pairs es (filter P rs) =
      concat (map (\<lambda>e. filter (\<lambda>(e, r). P r) (map (Pair e)
        (sort_by (\<lambda>a b. position a - position b) (filter (\<lambda>r. eventId r = event_id e) rs)))) es)"
    unfolding scored_pairs_def by (simp only: step)
  also have "\<dots> = filter (\<lambda>(e, r). P r) (scored_pairs es rs)"
    by (simp only: scored_pairs_def filter_concat map_map comp_def)
  finally show ?thesis .
qed

text \<open>
  Whenever the builder returns, the results of unknown drivers are skipped entirely: the
  standings are those of the input without them.
\<close>

lemma unknown_driver_skipped:
  assumes "buildStandings v c ds ts es results dbi = Inr out"
  shows "buildStandings v c ds ts es (filter (\<lambda>r. driverId r \<in> driver_id ` set ds) results) dbi = Inr out"
proof -
  let ?known = "filter (\<lambda>r. driverId r \<in> driver_id ` set ds) results"
  have safe: "safe_ids es results"
    using assms by (auto simp: buildStandings_eq split: if_splits)
  then have safe': "safe_ids es ?known"
    by (auto simp: safe_ids_def list_all_iff)
  have "dom (driverStats (init_agg ds ts)) = driver_id ` set ds"
    by (auto simp: dom_def init_agg_driverStats)
  then have "aggregate v dbi ds ts es ?known = aggregate v dbi ds ts es results"
    by (simp add: aggregate_def scored_pairs_filter fold_score_filter_known)
  then show ?thesis
    using assms safe safe' by (simp add: buildStandings_eq)
qed

end
